theory Spec2Isabelle
  imports Complex_Main
begin

section \<open>The demand resolver of blacksmith2.js\<close>

text \<open>
  \<^verbatim>\<open>calculateMaterials(recipes, targetRecipeName, countToCraft)\<close> walks the ingredient
  graph of a recipe table with the inner closure \<^verbatim>\<open>processRecipe\<close>, which adds to the two
  accumulator objects \<^verbatim>\<open>materialsNeeded\<close> and \<^verbatim>\<open>craftsNeeded\<close>.

  Modelling decisions.
  \<^item> The recipe table and the recipes are plain objects, as the object literals of the
    source are: a list of own enumerable properties, in the order in which
    \<^verbatim>\<open>for ... in\<close> visits them, with \<^verbatim>\<open>Object.prototype\<close> behind it. Reading a property
    that is not an own one finds the member of \<^verbatim>\<open>Object.prototype\<close> of that name, if
    there is one. The accumulators are fresh plain objects and are read in the same way.
  \<^item> A number of the table and the requested count are integers. A JavaScript number is
    a double: on integers of magnitude up to \<open>2^53\<close> the operations of the source
    (\<^verbatim>\<open>+\<close>, \<^verbatim>\<open>*\<close> and \<^verbatim>\<open>Math.ceil(a / b)\<close>) are exact, and the model computes them, with
    \<^verbatim>\<open>NaN\<close> and the two infinities where a division by \<open>0\<close> or by \<^verbatim>\<open>undefined\<close>
    produces them. An integer result beyond \<open>2^53\<close> is rounded by the machine; the
    model does not compute the rounding and gives \<open>Unknown\<close>, which stands for any number
    at all, and so does every operation on \<open>Unknown\<close>. Zero and negative zero are not
    told apart: the source never divides by a zero that it has computed, and nothing else
    it does can tell them apart.
  \<^item> A string arises only where \<^verbatim>\<open>+\<close> meets a member of \<^verbatim>\<open>Object.prototype\<close>; it
    is kept as the name of the member, whose text it starts with, and the numbers appended
    to it.
  \<^item> The environment of the closure, with the recipe table and the two accumulators, is
    the state that a call takes and returns.
  \<^item> The recursion of \<^verbatim>\<open>processRecipe\<close> is bounded only by the call stack. The model
    takes the number of frames that are available; when they are used up the outcome is
    \<open>RangeError\<close>, the exception a JavaScript engine throws for a recipe that is its own
    ingredient. No number decides which calls are made.

  The second script of the repository, the single-level \<^verbatim>\<open>craft()\<close>, only prints to the
  console and is not part of the resolver.
\<close>

subsection \<open>Numbers and values\<close>

datatype number = Fin int | NaN | PosInfinity | NegInfinity | Unknown

text \<open>An integer that a double holds exactly, together with its neighbours.\<close>

definition safe :: "int \<Rightarrow> bool" where
  "safe n \<longleftrightarrow> \<bar>n\<bar> \<le> 2 ^ 53"

definition fin :: "int \<Rightarrow> number" where
  "fin n = (if safe n then Fin n else Unknown)"

text \<open>The values that an entry of \<^verbatim>\<open>craftsNeeded\<close> can have: a number, or the string made
  of the text of the member of \<^verbatim>\<open>Object.prototype\<close> of the given name and of the numbers
  that were appended to it.\<close>

datatype jsvalue = Number number | Text string "number list"

text \<open>The own properties of \<^verbatim>\<open>Object.prototype\<close>. None of them is enumerable, and none is
  called \<^verbatim>\<open>output\<close>.\<close>

definition Object_prototype :: "string list" where
  "Object_prototype =
     [''constructor'', ''__defineGetter__'', ''__defineSetter__'', ''hasOwnProperty'',
      ''__lookupGetter__'', ''__lookupSetter__'', ''isPrototypeOf'',
      ''propertyIsEnumerable'', ''toString'', ''valueOf'', ''__proto__'',
      ''toLocaleString'']"

subsection \<open>Data\<close>

type_synonym recipe = "(string \<times> int) list"

type_synonym recipe_table = "(string \<times> recipe) list"

text \<open>The variables that the closure \<^verbatim>\<open>processRecipe\<close> can reach.\<close>

record env =
  recipes :: recipe_table
  materialsNeeded :: "string \<rightharpoonup> number"
  craftsNeeded :: "string \<rightharpoonup> jsvalue"

text \<open>The object returned by \<^verbatim>\<open>calculateMaterials\<close>.\<close>

record resolution =
  materials :: "string \<rightharpoonup> number"
  crafts :: "string \<rightharpoonup> jsvalue"

datatype 'a outcome = RangeError | Done 'a

text \<open>What \<^verbatim>\<open>recipes[currentItemName]\<close> finds: an own property, which is a recipe, or a
  member of \<^verbatim>\<open>Object.prototype\<close>, which is a function or, for \<^verbatim>\<open>__proto__\<close>, the object
  \<^verbatim>\<open>Object.prototype\<close> itself. All of them are truthy.\<close>

datatype found = Own recipe | Inherited

definition lookup :: "recipe_table \<Rightarrow> string \<Rightarrow> found option" where
  "lookup table name =
     (case map_of table name of
        Some recipe \<Rightarrow> Some (Own recipe)
      | None \<Rightarrow> if name \<in> set Object_prototype then Some Inherited else None)"

text \<open>\<^verbatim>\<open>recipe.output\<close>, and the properties that \<^verbatim>\<open>for (... in recipe)\<close> visits.\<close>

fun output_of :: "found \<Rightarrow> int option" where
  "output_of (Own recipe) = map_of recipe ''output''"
| "output_of Inherited = None"

fun properties :: "found \<Rightarrow> recipe" where
  "properties (Own recipe) = recipe"
| "properties Inherited = []"

subsection \<open>Arithmetic of the source\<close>

text \<open>\<^verbatim>\<open>x || 0\<close> for a property that is \<^verbatim>\<open>undefined\<close> or a number: \<open>0\<close> and \<^verbatim>\<open>NaN\<close>
  are falsy.\<close>

fun or_zero :: "number option \<Rightarrow> number" where
  "or_zero None = Fin 0"
| "or_zero (Some NaN) = Fin 0"
| "or_zero (Some v) = v"

text \<open>\<^verbatim>\<open>a + b\<close> on numbers.\<close>

fun js_add :: "number \<Rightarrow> number \<Rightarrow> number" where
  "js_add Unknown b = Unknown"
| "js_add a Unknown = Unknown"
| "js_add NaN b = NaN"
| "js_add a NaN = NaN"
| "js_add (Fin a) (Fin b) = (if safe a \<and> safe b then fin (a + b) else Unknown)"
| "js_add PosInfinity NegInfinity = NaN"
| "js_add NegInfinity PosInfinity = NaN"
| "js_add PosInfinity b = PosInfinity"
| "js_add a PosInfinity = PosInfinity"
| "js_add NegInfinity b = NegInfinity"
| "js_add a NegInfinity = NegInfinity"

text \<open>\<^verbatim>\<open>ingredientAmountPerCraft * numCraftsForThisRecipe\<close>, the first a number of the
  table.\<close>

fun js_mul :: "int \<Rightarrow> number \<Rightarrow> number" where
  "js_mul p (Fin n) = (if safe p \<and> safe n then fin (p * n) else Unknown)"
| "js_mul p NaN = NaN"
| "js_mul p PosInfinity =
     (if \<not> safe p then Unknown else if p = 0 then NaN
      else if 0 < p then PosInfinity else NegInfinity)"
| "js_mul p NegInfinity =
     (if \<not> safe p then Unknown else if p = 0 then NaN
      else if 0 < p then NegInfinity else PosInfinity)"
| "js_mul p Unknown = Unknown"

text \<open>\<^verbatim>\<open>Math.ceil(requiredAmount / itemsPerCraft)\<close>, where \<^verbatim>\<open>itemsPerCraft\<close> is the
  property \<^verbatim>\<open>recipe.output\<close>: a number of the table, or \<^verbatim>\<open>undefined\<close>.\<close>

fun Math_ceil_quotient :: "number \<Rightarrow> int option \<Rightarrow> number" where
  "Math_ceil_quotient a None = NaN"
| "Math_ceil_quotient NaN (Some out) = NaN"
| "Math_ceil_quotient Unknown (Some out) = Unknown"
| "Math_ceil_quotient (Fin a) (Some out) =
     (if \<not> safe a \<or> \<not> safe out then Unknown
      else if out = 0 then (if a = 0 then NaN else if 0 < a then PosInfinity else NegInfinity)
      else Fin \<lceil>(of_int a :: rat) / of_int out\<rceil>)"
| "Math_ceil_quotient PosInfinity (Some out) =
     (if \<not> safe out then Unknown else if 0 \<le> out then PosInfinity else NegInfinity)"
| "Math_ceil_quotient NegInfinity (Some out) =
     (if \<not> safe out then Unknown else if 0 \<le> out then NegInfinity else PosInfinity)"

text \<open>\<^verbatim>\<open>(craftsNeeded[currentItemName] || 0) + numCraftsForThisRecipe\<close>. The first argument
  is the own property of \<^verbatim>\<open>craftsNeeded\<close>, if there is one. Without it the member of
  \<^verbatim>\<open>Object.prototype\<close> of that name is found, a truthy object, and \<^verbatim>\<open>+\<close> makes a string
  of it and appends the number, as it does with a string.\<close>

fun accumulate :: "string \<Rightarrow> jsvalue option \<Rightarrow> number \<Rightarrow> jsvalue" where
  "accumulate name (Some (Number v)) n = Number (js_add (or_zero (Some v)) n)"
| "accumulate name (Some (Text member appended)) n = Text member (appended @ [n])"
| "accumulate name None n =
     (if name \<in> set Object_prototype then Text name [n]
      else Number (js_add (or_zero None) n))"

text \<open>\<^verbatim>\<open>craftsNeeded[currentItemName] = v\<close>. For the name \<^verbatim>\<open>__proto__\<close> this calls the
  setter of \<^verbatim>\<open>Object.prototype\<close>, which ignores a value that is not an object; the value
  is a string there.\<close>

definition assign :: "(string \<rightharpoonup> jsvalue) \<Rightarrow> string \<Rightarrow> jsvalue \<Rightarrow> (string \<rightharpoonup> jsvalue)" where
  "assign object name v = (if name = ''__proto__'' then object else object(name \<mapsto> v))"

subsection \<open>processRecipe and calculateMaterials\<close>

text \<open>
  \<open>processRecipe depth name amount e\<close> is one call of the closure with \<open>depth\<close> stack
  frames left; \<open>forIngredients\<close> is its \<^verbatim>\<open>for (const ingredientName in recipe)\<close> loop
  over the remaining properties of the recipe.
\<close>

fun processRecipe :: "nat \<Rightarrow> string \<Rightarrow> number \<Rightarrow> env \<Rightarrow> env outcome"
  and forIngredients :: "nat \<Rightarrow> recipe \<Rightarrow> number \<Rightarrow> env \<Rightarrow> env outcome"
where
  "processRecipe 0 currentItemName requiredAmount e = RangeError"
| "processRecipe (Suc depth) currentItemName requiredAmount e =
     (case lookup (recipes e) currentItemName of
        None \<Rightarrow>
          Done (e\<lparr>materialsNeeded := (materialsNeeded e)
                  (currentItemName \<mapsto>
                     js_add (or_zero (materialsNeeded e currentItemName)) requiredAmount)\<rparr>)
      | Some recipe \<Rightarrow>
          (let numCraftsForThisRecipe = Math_ceil_quotient requiredAmount (output_of recipe)
           in forIngredients depth (properties recipe) numCraftsForThisRecipe
                (e\<lparr>craftsNeeded := assign (craftsNeeded e) currentItemName
                     (accumulate currentItemName (craftsNeeded e currentItemName)
                        numCraftsForThisRecipe)\<rparr>)))"
| "forIngredients depth [] numCraftsForThisRecipe e = Done e"
| "forIngredients depth ((ingredientName, ingredientAmountPerCraft) # rest)
       numCraftsForThisRecipe e =
     (if ingredientName = ''output'' then forIngredients depth rest numCraftsForThisRecipe e
      else
        (case processRecipe depth ingredientName
                (js_mul ingredientAmountPerCraft numCraftsForThisRecipe) e of
           Done e' \<Rightarrow> forIngredients depth rest numCraftsForThisRecipe e'
         | RangeError \<Rightarrow> RangeError))"

definition initial_env :: "recipe_table \<Rightarrow> env" where
  "initial_env table =
     \<lparr>recipes = table, materialsNeeded = Map.empty, craftsNeeded = Map.empty\<rparr>"

text \<open>The environment of the closure when the outermost call of \<^verbatim>\<open>processRecipe\<close> has
  returned.\<close>

definition final_env :: "nat \<Rightarrow> recipe_table \<Rightarrow> string \<Rightarrow> int \<Rightarrow> env outcome" where
  "final_env depth table targetRecipeName countToCraft =
     processRecipe depth targetRecipeName (fin countToCraft) (initial_env table)"

definition calculateMaterials ::
  "nat \<Rightarrow> recipe_table \<Rightarrow> string \<Rightarrow> int \<Rightarrow> resolution outcome" where
  "calculateMaterials depth table targetRecipeName countToCraft =
     (case final_env depth table targetRecipeName countToCraft of
        Done e \<Rightarrow> Done \<lparr>materials = materialsNeeded e, crafts = craftsNeeded e\<rparr>
      | RangeError \<Rightarrow> RangeError)"

text \<open>The recipe table of the example usage in the source.\<close>

definition example_recipes :: recipe_table where
  "example_recipes =
     [(''ironBar'', [(''ironOre'', 25), (''coal'', 25), (''output'', 6)]),
      (''nails'', [(''ironBar'', 1), (''coal'', 1), (''output'', 6)]),
      (''copperBar'', [(''copperOre'', 5), (''coal'', 2), (''output'', 2)]),
      (''transferBoxes'',
         [(''copperBar'', 1), (''nails'', 5), (''softwood'', 2), (''output'', 1)])]"




definition constructor_ingredient_recipes :: recipe_table where
  "constructor_ingredient_recipes = [(''a'', [(''constructor'', 2), (''output'', 1)])]"

text \<open>A table with a positive output and a negative quantity per batch.\<close>

definition negative_quantity_recipes :: recipe_table where
  "negative_quantity_recipes = [(''a'', [(''x'', - 1), (''output'', 2)])]"

subsection \<open>The calls of processRecipe\<close>

text \<open>
  \<open>demands depth table name amount\<close> lists the arguments \<^verbatim>\<open>(currentItemName, requiredAmount)\<close>
  of every call of \<^verbatim>\<open>processRecipe\<close> that the call \<^verbatim>\<open>processRecipe(name, amount)\<close> leads
  to, itself first, in the order of the calls. It follows the recursion of the source and
  leaves the accumulators out.
\<close>

fun demands :: "nat \<Rightarrow> recipe_table \<Rightarrow> string \<Rightarrow> number \<Rightarrow> (string \<times> number) list outcome"
  and demandsFor :: "nat \<Rightarrow> recipe_table \<Rightarrow> recipe \<Rightarrow> number \<Rightarrow> (string \<times> number) list outcome"
where
  "demands 0 table currentItemName requiredAmount = RangeError"
| "demands (Suc depth) table currentItemName requiredAmount =
     (case lookup table currentItemName of
        None \<Rightarrow> Done [(currentItemName, requiredAmount)]
      | Some recipe \<Rightarrow>
          (case demandsFor depth table (properties recipe)
                  (Math_ceil_quotient requiredAmount (output_of recipe)) of
             Done below \<Rightarrow> Done ((currentItemName, requiredAmount) # below)
           | RangeError \<Rightarrow> RangeError))"
| "demandsFor depth table [] numCraftsForThisRecipe = Done []"
| "demandsFor depth table ((ingredientName, ingredientAmountPerCraft) # rest)
       numCraftsForThisRecipe =
     (if ingredientName = ''output'' then demandsFor depth table rest numCraftsForThisRecipe
      else
        (case demands depth table ingredientName
                (js_mul ingredientAmountPerCraft numCraftsForThisRecipe) of
           Done first \<Rightarrow>
             (case demandsFor depth table rest numCraftsForThisRecipe of
                Done others \<Rightarrow> Done (first @ others)
              | RangeError \<Rightarrow> RangeError)
         | RangeError \<Rightarrow> RangeError))"

text \<open>What a single call does to the accumulators before it descends into the
  ingredients.\<close>

definition record_demand :: "env \<Rightarrow> string \<times> number \<Rightarrow> env" where
  "record_demand e d =
     (case lookup (recipes e) (fst d) of
        None \<Rightarrow>
          e\<lparr>materialsNeeded := (materialsNeeded e)
               (fst d \<mapsto> js_add (or_zero (materialsNeeded e (fst d))) (snd d))\<rparr>
      | Some recipe \<Rightarrow>
          e\<lparr>craftsNeeded := assign (craftsNeeded e) (fst d)
               (accumulate (fst d) (craftsNeeded e (fst d))
                  (Math_ceil_quotient (snd d) (output_of recipe)))\<rparr>)"

text \<open>The calls for one item among a list of calls.\<close>

definition calls_for :: "string \<Rightarrow> (string \<times> number) list \<Rightarrow> (string \<times> number) list" where
  "calls_for name calls = filter (\<lambda>c. fst c = name) calls"

text \<open>Sequencing: the second step runs on the result of the first, unless that failed.\<close>

definition and_then :: "'a outcome \<Rightarrow> ('a \<Rightarrow> 'b outcome) \<Rightarrow> 'b outcome" where
  "and_then r f = (case r of Done x \<Rightarrow> f x | RangeError \<Rightarrow> RangeError)"

subsection \<open>Notions used to state the properties\<close>

text \<open>The ingredient entries of a recipe: every property but \<^verbatim>\<open>output\<close>.\<close>

definition ingredients :: "recipe \<Rightarrow> recipe" where
  "ingredients recipe = filter (\<lambda>p. fst p \<noteq> ''output'') recipe"

text \<open>\<open>(k, n)\<close> is in the relation when \<open>k\<close> is an ingredient of the recipe of \<open>n\<close>.
  The table is acyclic when this relation is.\<close>

definition ingredient_rel :: "recipe_table \<Rightarrow> (string \<times> string) set" where
  "ingredient_rel table =
     {(k, n). \<exists>recipe. map_of table n = Some recipe \<and> k \<in> fst ` set (ingredients recipe)}"


text \<open>The ingredient entries of the recipes of the table.\<close>

definition table_ingredients :: "recipe_table \<Rightarrow> (string \<times> int) set" where
  "table_ingredients table = (\<Union>entry \<in> set table. set (ingredients (snd entry)))"

text \<open>Every ingredient chain that starts at \<open>name\<close> has at most \<open>d\<close> items.\<close>

fun chains_within :: "recipe_table \<Rightarrow> nat \<Rightarrow> string \<Rightarrow> bool" where
  "chains_within table 0 name = False"
| "chains_within table (Suc d) name =
     (case map_of table name of
        None \<Rightarrow> True
      | Some recipe \<Rightarrow> list_all (\<lambda>p. chains_within table d (fst p)) (ingredients recipe))"


text \<open>The numbers of the table are integers that a double holds exactly.\<close>

definition safe_numbers :: "recipe_table \<Rightarrow> bool" where
  "safe_numbers table = list_all (\<lambda>entry. list_all (\<lambda>p. safe (snd p)) (snd entry)) table"

text \<open>Every recipe has an \<^verbatim>\<open>output\<close>, and it is not \<open>0\<close>.\<close>

definition outputs_nonzero :: "recipe_table \<Rightarrow> bool" where
  "outputs_nonzero table =
     list_all (\<lambda>entry. case map_of (snd entry) ''output'' of
                          None \<Rightarrow> False
                        | Some out \<Rightarrow> out \<noteq> 0) table"

text \<open>The invariant of the data model: every recipe has an \<^verbatim>\<open>output\<close> above \<open>0\<close>.\<close>

definition outputs_positive :: "recipe_table \<Rightarrow> bool" where
  "outputs_positive table =
     list_all (\<lambda>entry. case map_of (snd entry) ''output'' of
                          None \<Rightarrow> False
                        | Some out \<Rightarrow> 0 < out) table"

text \<open>A recipe needs no negative quantity of an ingredient.\<close>

definition quantities_nonneg :: "recipe_table \<Rightarrow> bool" where
  "quantities_nonneg table =
     list_all (\<lambda>entry. list_all (\<lambda>p. 0 \<le> snd p) (ingredients (snd entry))) table"


text \<open>An integer, or a number that the model does not compute.\<close>

fun integer_or_unknown :: "number \<Rightarrow> bool" where
  "integer_or_unknown (Fin n) = True"
| "integer_or_unknown Unknown = True"
| "integer_or_unknown v = False"

text \<open>The integers among the amounts of a list of calls, and their sum.\<close>

fun integer_of :: "number \<Rightarrow> int option" where
  "integer_of (Fin n) = Some n"
| "integer_of v = None"

definition demanded :: "string \<Rightarrow> (string \<times> number) list \<Rightarrow> int" where
  "demanded name calls =
     (\<Sum>c\<leftarrow>calls_for name calls. case integer_of (snd c) of Some n \<Rightarrow> n | None \<Rightarrow> 0)"

text \<open>
  The requirement without rounding: the quantity of the raw material \<open>raw\<close> that goes
  into \<open>amount\<close> units of \<open>name\<close> when a recipe may be run a fractional number of
  times, \<open>amount / output\<close>. An item is a raw material when it is not a key of the recipe
  table. The first argument bounds the length of the ingredient chains that are followed.
\<close>

fun unrounded :: "nat \<Rightarrow> recipe_table \<Rightarrow> string \<Rightarrow> rat \<Rightarrow> string \<Rightarrow> rat" where
  "unrounded 0 table name amount raw = 0"
| "unrounded (Suc d) table name amount raw =
     (case map_of table name of
        None \<Rightarrow> if name = raw then amount else 0
      | Some recipe \<Rightarrow>
          (\<Sum>p\<leftarrow>ingredients recipe.
             unrounded d table (fst p)
               (of_int (snd p)
                  * (amount / of_int (case map_of recipe ''output'' of
                                        Some out \<Rightarrow> out | None \<Rightarrow> 0))) raw))"

section \<open>Properties\<close>

subsection \<open>Evaluation\<close>

lemma safe_numeral [simp]:
  "safe 0" "safe 1" "numeral k \<le> (2::int) ^ 53 \<Longrightarrow> safe (numeral k)"
  "numeral k \<le> (2::int) ^ 53 \<Longrightarrow> safe (- numeral k)"
  by (simp_all add: safe_def)

lemma Math_ceil_quotient_div:
  "Math_ceil_quotient (Fin a) (Some out) =
     (if \<not> safe a \<or> \<not> safe out then Unknown
      else if out = 0 then (if a = 0 then NaN else if 0 < a then PosInfinity else NegInfinity)
      else Fin (- ((- a) div out)))"
  by (simp add: ceiling_divide_eq_div)

lemmas run_simps = calculateMaterials_def final_env_def initial_env_def example_recipes_def
  lookup_def Object_prototype_def assign_def fin_def Math_ceil_quotient_div Let_def
  eval_nat_numeral

subsection \<open>The accumulators as a fold over the calls\<close>

lemma recipes_record_demand [simp]: "recipes (record_demand e d) = recipes e"
  by (simp add: record_demand_def split: option.splits)

lemma recipes_foldl_record_demand [simp]: "recipes (foldl record_demand e tr) = recipes e"
  by (induction tr arbitrary: e) simp_all

lemma processRecipe_as_demands:
  "processRecipe depth name amount e =
     map_outcome (foldl record_demand e) (demands depth (recipes e) name amount)"
  "forIngredients depth recipe n e =
     map_outcome (foldl record_demand e) (demandsFor depth (recipes e) recipe n)"
proof (induction depth name amount e and depth recipe n e
    rule: processRecipe_forIngredients.induct)
  case (1 currentItemName requiredAmount e)
  show ?case by simp
next
  case (2 depth currentItemName requiredAmount e)
  show ?case
  proof (cases "lookup (recipes e) currentItemName")
    case None
    then show ?thesis by (simp add: record_demand_def)
  next
    case (Some recipe)
    with "2.IH" [OF Some refl]
    show ?thesis
      by (cases "demandsFor depth (recipes e) (properties recipe)
                   (Math_ceil_quotient requiredAmount (output_of recipe))")
         (simp_all add: record_demand_def Let_def)
  qed
next
  case (3 depth numCraftsForThisRecipe e)
  show ?case by simp
next
  case (4 depth ingredientName ingredientAmountPerCraft rest numCraftsForThisRecipe e)
  show ?case
  proof (cases "ingredientName = ''output''")
    case True
    with "4.IH"(1) show ?thesis by simp
  next
    case False
    note step = "4.IH"(2) [OF False]
    show ?thesis
    proof (cases "demands depth (recipes e) ingredientName
                    (js_mul ingredientAmountPerCraft numCraftsForThisRecipe)")
      case RangeError
      with False step show ?thesis by simp
    next
      case (Done first)
      with step have run: "processRecipe depth ingredientName
          (js_mul ingredientAmountPerCraft numCraftsForThisRecipe) e
            = Done (foldl record_demand e first)"
        by simp
      from "4.IH"(3) [OF False run]
      have "forIngredients depth rest numCraftsForThisRecipe (foldl record_demand e first) =
          map_outcome (foldl record_demand (foldl record_demand e first))
            (demandsFor depth (recipes e) rest numCraftsForThisRecipe)"
        by simp
      with False run Done show ?thesis
        by (cases "demandsFor depth (recipes e) rest numCraftsForThisRecipe") simp_all
    qed
  qed
qed

lemma processRecipe_recipes:
  "processRecipe depth name amount e = Done e' \<Longrightarrow> recipes e' = recipes e"
  by (cases "demands depth (recipes e) name amount")
     (auto simp: processRecipe_as_demands(1))

lemma calls_for_simps [simp]:
  "calls_for name [] = []"
  "calls_for name (c # cs) = (if fst c = name then c # calls_for name cs else calls_for name cs)"
  "calls_for name (cs @ ds) = calls_for name cs @ calls_for name ds"
  by (simp_all add: calls_for_def)



lemma set_calls_for: "set (calls_for name calls) \<subseteq> set calls"
  by (auto simp: calls_for_def)

lemma fst_calls_for: "c \<in> set (calls_for name calls) \<Longrightarrow> fst c = name"
  by (simp add: calls_for_def)

text \<open>The entry of an item that is found in the recipe table is the fold of
  \<open>accumulate\<close> over the calls for it.\<close>

lemma craftsNeeded_foldl:
  assumes "lookup (recipes e) r = Some recipe" and "r \<noteq> ''__proto__''"
  shows "craftsNeeded (foldl record_demand e tr) r =
     foldl (\<lambda>entry c. Some (accumulate r entry (Math_ceil_quotient (snd c) (output_of recipe))))
       (craftsNeeded e r) (calls_for r tr)"
  using assms(1)
proof (induction tr arbitrary: e)
  case Nil
  show ?case by simp
next
  case (Cons c tr)
  have rec: "lookup (recipes (record_demand e c)) r = Some recipe"
    using Cons.prems by simp
  show ?case
  proof (cases "fst c = r")
    case True
    with Cons.prems assms(2)
    have "craftsNeeded (record_demand e c) r =
        Some (accumulate r (craftsNeeded e r) (Math_ceil_quotient (snd c) (output_of recipe)))"
      by (simp add: record_demand_def assign_def)
    with Cons.IH [OF rec] True show ?thesis by simp
  next
    case False
    then have "craftsNeeded (record_demand e c) r = craftsNeeded e r"
      by (simp add: record_demand_def assign_def split: option.splits)
    with Cons.IH [OF rec] False show ?thesis by simp
  qed
qed

lemma materialsNeeded_foldl:
  assumes "lookup (recipes e) m = None"
  shows "materialsNeeded (foldl record_demand e tr) m =
     foldl (\<lambda>entry c. Some (js_add (or_zero entry) (snd c)))
       (materialsNeeded e m) (calls_for m tr)"
  using assms
proof (induction tr arbitrary: e)
  case Nil
  show ?case by simp
next
  case (Cons c tr)
  have rec: "lookup (recipes (record_demand e c)) m = None"
    using Cons.prems by simp
  show ?case
  proof (cases "fst c = m")
    case True
    with Cons.prems
    have "materialsNeeded (record_demand e c) m =
        Some (js_add (or_zero (materialsNeeded e m)) (snd c))"
      by (simp add: record_demand_def)
    with Cons.IH [OF rec] True show ?thesis by simp
  next
    case False
    then have "materialsNeeded (record_demand e c) m = materialsNeeded e m"
      by (simp add: record_demand_def split: option.splits)
    with Cons.IH [OF rec] False show ?thesis by simp
  qed
qed

lemma materialsNeeded_foldl_found:
  assumes "lookup (recipes e) r = Some recipe"
  shows "materialsNeeded (foldl record_demand e tr) r = materialsNeeded e r"
  using assms
proof (induction tr arbitrary: e)
  case Nil
  show ?case by simp
next
  case (Cons c tr)
  have "materialsNeeded (record_demand e c) r = materialsNeeded e r"
    using Cons.prems by (auto simp: record_demand_def split: option.splits)
  with Cons.IH [of "record_demand e c"] Cons.prems show ?case by simp
qed

lemma craftsNeeded_foldl_raw:
  assumes "lookup (recipes e) m = None"
  shows "craftsNeeded (foldl record_demand e tr) m = craftsNeeded e m"
  using assms
proof (induction tr arbitrary: e)
  case Nil
  show ?case by simp
next
  case (Cons c tr)
  have "craftsNeeded (record_demand e c) m = craftsNeeded e m"
    using Cons.prems by (auto simp: record_demand_def assign_def split: option.splits)
  with Cons.IH [of "record_demand e c"] Cons.prems show ?case by simp
qed


text \<open>The result of \<^verbatim>\<open>calculateMaterials\<close> in terms of the calls.\<close>

lemma final_env_as_demands:
  "final_env depth table t q =
     map_outcome (foldl record_demand (initial_env table)) (demands depth table t (fin q))"
  by (simp add: final_env_def processRecipe_as_demands(1) initial_env_def)

lemma calculateMaterials_DoneD:
  assumes "calculateMaterials depth table t q = Done res"
  obtains tr where "demands depth table t (fin q) = Done tr"
    and "materials res = materialsNeeded (foldl record_demand (initial_env table) tr)"
    and "crafts res = craftsNeeded (foldl record_demand (initial_env table) tr)"
  using assms
  by (cases "demands depth table t (fin q)")
     (auto simp: calculateMaterials_def final_env_as_demands)

lemma calculateMaterials_DoneI:
  assumes "demands depth table t (fin q) = Done tr"
  shows "calculateMaterials depth table t q =
     Done \<lparr>materials = materialsNeeded (foldl record_demand (initial_env table) tr),
           crafts = craftsNeeded (foldl record_demand (initial_env table) tr)\<rparr>"
  using assms by (simp add: calculateMaterials_def final_env_as_demands)

subsection \<open>Facts about the calls\<close>

lemma demands_SucE:
  assumes "demands (Suc depth) table name amount = Done tr"
  obtains (raw) "lookup table name = None" and "tr = [(name, amount)]"
  | (found) recipe below where "lookup table name = Some recipe"
      and "demandsFor depth table (properties recipe)
             (Math_ceil_quotient amount (output_of recipe)) = Done below"
      and "tr = (name, amount) # below"
proof (cases "lookup table name")
  case None
  with assms raw show ?thesis by simp
next
  case (Some recipe)
  show ?thesis
  proof (cases "demandsFor depth table (properties recipe)
                  (Math_ceil_quotient amount (output_of recipe))")
    case (Done below)
    with Some assms found show ?thesis by simp
  qed (use Some assms in simp_all)
qed

lemma demandsFor_ConsE:
  assumes "demandsFor depth table ((k, v) # rest) n = Done tr"
  obtains (skipped) "k = ''output''" and "demandsFor depth table rest n = Done tr"
  | (ingredient) first others where "k \<noteq> ''output''"
      and "demands depth table k (js_mul v n) = Done first"
      and "demandsFor depth table rest n = Done others"
      and "tr = first @ others"
proof (cases "k = ''output''")
  case True
  with assms skipped show ?thesis by simp
next
  case False
  show ?thesis
  proof (cases "demands depth table k (js_mul v n)")
    case (Done first)
    show ?thesis
    proof (cases "demandsFor depth table rest n")
      case others: (Done others)
      with False Done assms ingredient show ?thesis by simp
    qed (use False Done assms in simp_all)
  qed (use False assms in simp_all)
qed


lemma demands_Suc_depth:
  "demands depth table name amount = Done tr \<Longrightarrow>
     demands (Suc depth) table name amount = Done tr"
  "demandsFor depth table recipe n = Done tr \<Longrightarrow>
     demandsFor (Suc depth) table recipe n = Done tr"
proof (induction depth table name amount and depth table recipe n arbitrary: tr and tr
    rule: demands_demandsFor.induct)
  case (1 table currentItemName requiredAmount)
  then show ?case by simp
next
  case (2 depth table currentItemName requiredAmount)
  from "2.prems" show ?case
  proof (cases rule: demands_SucE)
    case raw
    then show ?thesis by simp
  next
    case (found recipe below)
    from "2.IH" [OF found(1,2)] found(1,3)
    show ?thesis by simp
  qed
next
  case (3 depth table numCraftsForThisRecipe)
  then show ?case by simp
next
  case (4 depth table ingredientName ingredientAmountPerCraft rest numCraftsForThisRecipe)
  from "4.prems" show ?case
  proof (cases rule: demandsFor_ConsE)
    case skipped
    with "4.IH"(1) show ?thesis by simp
  next
    case (ingredient first others)
    from "4.IH"(2) [OF ingredient(1,2)] "4.IH"(3) [OF ingredient(1,2,3)] ingredient(1,4)
    show ?thesis by simp
  qed
qed

lemma demands_add_depth:
  "demands depth table name amount = Done tr \<Longrightarrow>
     demands (depth + k) table name amount = Done tr"
proof (induction k)
  case 0
  then show ?case by simp
next
  case (Suc k)
  then have "demands (Suc (depth + k)) table name amount = Done tr"
    by (intro demands_Suc_depth(1))
  then show ?case by (simp only: add_Suc_right)
qed

lemma calculateMaterials_add_depth:
  assumes "calculateMaterials depth table t q = Done res"
  shows "calculateMaterials (depth + k) table t q = Done res"
proof -
  from assms obtain tr where tr: "demands depth table t (fin q) = Done tr"
    and "materials res = materialsNeeded (foldl record_demand (initial_env table) tr)"
    and "crafts res = craftsNeeded (foldl record_demand (initial_env table) tr)"
    by (rule calculateMaterials_DoneD)
  then have "res = \<lparr>materials = materialsNeeded (foldl record_demand (initial_env table) tr),
           crafts = craftsNeeded (foldl record_demand (initial_env table) tr)\<rparr>"
    by simp
  with calculateMaterials_DoneI [OF demands_add_depth [OF tr, of k]] show ?thesis by simp
qed

subsection \<open>The loop over the ingredients\<close>

lemma and_then_simps [simp]:
  "and_then (Done x) f = f x"
  "and_then RangeError f = RangeError"
  by (simp_all add: and_then_def)

lemma ingredients_Cons:
  "ingredients ((k, v) # rest) = (if k = ''output'' then ingredients rest else (k, v) # ingredients rest)"
  by (simp add: ingredients_def)


subsection \<open>Termination\<close>

lemma chains_within_Suc:
  "chains_within table d name \<Longrightarrow> chains_within table (Suc d) name"
proof (induction d arbitrary: name)
  case 0
  then show ?case by simp
next
  case (Suc d)
  show ?case
  proof (cases "map_of table name")
    case None
    then show ?thesis by simp
  next
    case (Some recipe)
    with Suc.prems
    have "list_all (\<lambda>p. chains_within table d (fst p)) (ingredients recipe)"
      by simp
    then have "list_all (\<lambda>p. chains_within table (Suc d) (fst p)) (ingredients recipe)"
      using Suc.IH by (auto simp: list_all_iff)
    with Some show ?thesis by (simp del: chains_within.simps(2) add: chains_within.simps(2) [of table "Suc d"])
  qed
qed

lemma chains_within_mono:
  assumes "chains_within table d name" and "d \<le> d'"
  shows "chains_within table d' name"
  using assms(2,1)
proof (induction rule: dec_induct)
  case base
  then show ?case .
next
  case (step n)
  then show ?case by (intro chains_within_Suc) simp
qed

lemma lookup_cases:
  obtains (raw) "map_of table name = None" and "lookup table name = None"
      and "name \<notin> set Object_prototype"
  | (inherited) "map_of table name = None" and "lookup table name = Some Inherited"
      and "name \<in> set Object_prototype"
  | (own) recipe where "map_of table name = Some recipe"
      and "lookup table name = Some (Own recipe)"
  by (cases "map_of table name") (auto simp: lookup_def)

lemma demands_total:
  "chains_within table depth name \<Longrightarrow> \<exists>tr. demands depth table name amount = Done tr"
  "list_all (\<lambda>p. chains_within table depth (fst p)) (ingredients recipe) \<Longrightarrow>
     \<exists>tr. demandsFor depth table recipe n = Done tr"
proof (induction depth table name amount and depth table recipe n
    rule: demands_demandsFor.induct)
  case (1 table currentItemName requiredAmount)
  then show ?case by simp
next
  case (2 depth table currentItemName requiredAmount)
  show ?case
  proof (cases table currentItemName rule: lookup_cases)
    case raw
    then show ?thesis by simp
  next
    case inherited
    have "list_all (\<lambda>p. chains_within table depth (fst p)) (ingredients (properties Inherited))"
      by (simp add: ingredients_def)
    from "2.IH" [OF inherited(2) this] inherited(2) show ?thesis by auto
  next
    case (own recipe)
    with "2.prems"
    have "list_all (\<lambda>p. chains_within table depth (fst p)) (ingredients (properties (Own recipe)))"
      by simp
    from "2.IH" [OF own(2) this] own(2) show ?thesis by auto
  qed
next
  case (3 depth table numCraftsForThisRecipe)
  then show ?case by simp
next
  case (4 depth table ingredientName ingredientAmountPerCraft rest numCraftsForThisRecipe)
  show ?case
  proof (cases "ingredientName = ''output''")
    case True
    with "4.prems" have "list_all (\<lambda>p. chains_within table depth (fst p)) (ingredients rest)"
      by (simp add: ingredients_Cons)
    from "4.IH"(1) [OF True this] True show ?thesis by simp
  next
    case False
    with "4.prems" have here: "chains_within table depth ingredientName"
      and rest: "list_all (\<lambda>p. chains_within table depth (fst p)) (ingredients rest)"
      by (simp_all add: ingredients_Cons)
    from "4.IH"(2) [OF False here] obtain first
      where first: "demands depth table ingredientName
          (js_mul ingredientAmountPerCraft numCraftsForThisRecipe) = Done first"
      by blast
    from "4.IH"(3) [OF False first rest] obtain others
      where "demandsFor depth table rest numCraftsForThisRecipe = Done others"
      by blast
    with False first show ?thesis by simp
  qed
qed

lemma finite_ingredient_rel: "finite (ingredient_rel table)"
proof (rule finite_subset)
  show "ingredient_rel table
      \<subseteq> (\<Union>recipe \<in> snd ` set table. fst ` set recipe) \<times> fst ` set table"
  proof
    fix x
    assume "x \<in> ingredient_rel table"
    then obtain k n recipe where x: "x = (k, n)" and r: "map_of table n = Some recipe"
      and k: "k \<in> fst ` set (ingredients recipe)"
      by (auto simp: ingredient_rel_def)
    from r have "(n, recipe) \<in> set table" by (rule map_of_SomeD)
    then have "n \<in> fst ` set table" and "recipe \<in> snd ` set table" by force+
    moreover from k have "k \<in> fst ` set recipe" by (auto simp: ingredients_def)
    ultimately show "x \<in> (\<Union>recipe \<in> snd ` set table. fst ` set recipe) \<times> fst ` set table"
      using x by blast
  qed
  show "finite ((\<Union>recipe \<in> snd ` set table. fst ` set recipe) \<times> fst ` set table)"
    by simp
qed

lemma common_chain_bound:
  assumes "\<forall>p \<in> set ps. \<exists>d. chains_within table d (fst p)"
  shows "\<exists>d. list_all (\<lambda>p. chains_within table d (fst p)) ps"
  using assms
proof (induction ps)
  case Nil
  show ?case by simp
next
  case (Cons p ps)
  then obtain d1 d2 where 1: "chains_within table d1 (fst p)"
    and 2: "list_all (\<lambda>p. chains_within table d2 (fst p)) ps"
    by auto
  from 1 have "chains_within table (max d1 d2) (fst p)"
    by (rule chains_within_mono) simp
  moreover from 2 have "list_all (\<lambda>p. chains_within table (max d1 d2) (fst p)) ps"
    by (auto simp: list_all_iff intro: chains_within_mono [of table d2])
  ultimately show ?case by auto
qed

lemma acyclic_chains_within:
  assumes "acyclic (ingredient_rel table)"
  shows "\<exists>d. chains_within table d name"
proof -
  from finite_ingredient_rel assms have "wf (ingredient_rel table)"
    by (rule finite_acyclic_wf)
  then show ?thesis
  proof (induction name rule: wf_induct_rule)
    case (less name)
    show ?case
    proof (cases "map_of table name")
      case None
      then have "chains_within table (Suc 0) name" by simp
      then show ?thesis ..
    next
      case (Some recipe)
      have "\<forall>p \<in> set (ingredients recipe). \<exists>d. chains_within table d (fst p)"
      proof
        fix p
        assume "p \<in> set (ingredients recipe)"
        with Some have "(fst p, name) \<in> ingredient_rel table"
          by (auto simp: ingredient_rel_def)
        then show "\<exists>d. chains_within table d (fst p)" by (rule less.IH)
      qed
      then obtain d where "list_all (\<lambda>p. chains_within table d (fst p)) (ingredients recipe)"
        using common_chain_bound by blast
      with Some have "chains_within table (Suc d) name" by simp
      then show ?thesis ..
    qed
  qed
qed

text \<open>A table whose items can be ranked, every ingredient below the item it goes into, is acyclic.\<close>

lemma ranked_acyclic:
  assumes "\<And>k n. (k, n) \<in> ingredient_rel table \<Longrightarrow> rank k < (rank n :: nat)"
  shows "acyclic (ingredient_rel table)"
proof -
  have "ingredient_rel table \<subseteq> measure rank"
    using assms by auto
  then have "wf (ingredient_rel table)"
    by (rule wf_subset [OF wf_measure])
  then show ?thesis by (rule wf_acyclic)
qed

text \<open>On an acyclic table a resolution returns, with one result for every stack that is as
  deep as the ingredient chains from the target are long.\<close>

lemma resolves:
  assumes "acyclic (ingredient_rel table)"
  shows "\<exists>res calls. (\<exists>d. chains_within table d t)
    \<and> (\<forall>depth. chains_within table depth t \<longrightarrow>
          calculateMaterials depth table t q = Done res
          \<and> demands depth table t (fin q) = Done calls)"
proof -
  from assms obtain d where d: "chains_within table d t"
    using acyclic_chains_within by blast
  from demands_total(1) [OF d] obtain calls
    where calls: "demands d table t (fin q) = Done calls"
    by blast
  define res where "res = \<lparr>materials = materialsNeeded (foldl record_demand (initial_env table) calls),
           crafts = craftsNeeded (foldl record_demand (initial_env table) calls)\<rparr>"
  have "calculateMaterials depth table t q = Done res
      \<and> demands depth table t (fin q) = Done calls"
    if "chains_within table depth t" for depth
  proof -
    from demands_total(1) [OF that] obtain calls'
      where calls': "demands depth table t (fin q) = Done calls'"
      by blast
    have "calls' = calls"
    proof (cases "d \<le> depth")
      case True
      then obtain k where "depth = d + k" by (auto simp: le_iff_add)
      with demands_add_depth [OF calls, of k] calls' show ?thesis by simp
    next
      case False
      then have "depth \<le> d" by simp
      then obtain k where "d = depth + k" by (auto simp: le_iff_add)
      with demands_add_depth [OF calls', of k] calls show ?thesis by simp
    qed
    with calls' calculateMaterials_DoneI [OF calls'] show ?thesis
      by (simp add: res_def)
  qed
  with d show ?thesis by blast
qed

subsection \<open>Names and amounts among the calls\<close>

lemma fin_eq_Fin: "fin n = Fin a \<longleftrightarrow> a = n \<and> safe n"
  by (auto simp: fin_def)

lemma fin_safe [simp]: "safe n \<Longrightarrow> fin n = Fin n"
  by (simp add: fin_def)






subsection \<open>Rounded quotients\<close>





lemma ceiling_quotient_covers:
  assumes "0 < out"
  shows "a \<le> out * \<lceil>(of_int a :: rat) / of_int out\<rceil>"
proof -
  have le: "(of_int a :: rat) / of_int out \<le> of_int \<lceil>(of_int a :: rat) / of_int out\<rceil>"
    by (rule le_of_int_ceiling)
  from assms have pos: "(0::rat) < of_int out" by simp
  have "(of_int a :: rat) \<le> of_int \<lceil>(of_int a :: rat) / of_int out\<rceil> * of_int out"
    by (rule iffD1 [OF pos_divide_le_eq [OF pos] le])
  then have "(of_int a :: rat) \<le> of_int (\<lceil>(of_int a :: rat) / of_int out\<rceil> * out)"
    by simp
  then have "a \<le> \<lceil>(of_int a :: rat) / of_int out\<rceil> * out"
    by (simp only: of_int_le_iff)
  then show ?thesis by (simp add: mult.commute)
qed

subsection \<open>Invariants of the amounts and of the accumulators\<close>

text \<open>A property \<open>G\<close> of the amounts holds for every call when it holds for the first
  one, the batch count of an amount with \<open>G\<close> has the property \<open>H\<close>, and the product of a
  quantity per batch with a batch count with \<open>H\<close> has \<open>G\<close> again.\<close>

lemma demands_amounts:
  "(\<And>name recipe a. map_of table name = Some recipe \<Longrightarrow> G a \<Longrightarrow>
      H (Math_ceil_quotient a (map_of recipe ''output''))) \<Longrightarrow>
   (\<And>p n. p \<in> table_ingredients table \<Longrightarrow> H n \<Longrightarrow> G (js_mul (snd p) n)) \<Longrightarrow>
   demands depth table name amount = Done tr \<Longrightarrow> G amount \<Longrightarrow> c \<in> set tr \<Longrightarrow>
      G (snd c)"
  "(\<And>name recipe a. map_of table name = Some recipe \<Longrightarrow> G a \<Longrightarrow>
      H (Math_ceil_quotient a (map_of recipe ''output''))) \<Longrightarrow>
   (\<And>p n. p \<in> table_ingredients table \<Longrightarrow> H n \<Longrightarrow> G (js_mul (snd p) n)) \<Longrightarrow>
   demandsFor depth table recipe n = Done tr \<Longrightarrow>
      set (ingredients recipe) \<subseteq> table_ingredients table \<Longrightarrow> H n \<Longrightarrow> c \<in> set tr \<Longrightarrow>
      G (snd c)"
proof (induction depth table name amount and depth table recipe n arbitrary: tr and tr
    rule: demands_demandsFor.induct)
  case (1 table currentItemName requiredAmount)
  then show ?case by simp
next
  case (2 depth table currentItemName requiredAmount)
  from "2.prems"(3) show ?case
  proof (cases rule: demands_SucE)
    case raw
    with "2.prems"(4,5) show ?thesis by simp
  next
    case (found recipe below)
    show ?thesis
    proof (cases "c \<in> set below")
      case False
      with found(3) "2.prems"(4,5) show ?thesis by simp
    next
      case True
      show ?thesis
      proof (cases recipe)
        case Inherited
        with found(2) True show ?thesis by simp
      next
        case (Own r)
        with found(1) have r: "map_of table currentItemName = Some r"
          by (auto simp: lookup_def split: option.splits if_splits)
        then have "(currentItemName, r) \<in> set table" by (rule map_of_SomeD)
        then have sub: "set (ingredients (properties recipe)) \<subseteq> table_ingredients table"
          using Own by (force simp: table_ingredients_def)
        from "2.prems"(1) [OF r "2.prems"(4)] Own
        have "H (Math_ceil_quotient requiredAmount (output_of recipe))" by simp
        from "2.IH" [OF found(1) "2.prems"(1,2) found(2) sub this True] show ?thesis
          by simp
      qed
    qed
  qed
next
  case (3 depth table numCraftsForThisRecipe)
  then show ?case by simp
next
  case (4 depth table ingredientName ingredientAmountPerCraft rest numCraftsForThisRecipe)
  from "4.prems"(3) show ?case
  proof (cases rule: demandsFor_ConsE)
    case skipped
    with "4.prems"(4) have "set (ingredients rest) \<subseteq> table_ingredients table"
      by (simp add: ingredients_Cons)
    from "4.IH"(1) [OF skipped(1) "4.prems"(1,2) skipped(2) this "4.prems"(5,6)] show ?thesis
      by simp
  next
    case (ingredient first others)
    with "4.prems"(4) have here: "(ingredientName, ingredientAmountPerCraft) \<in> table_ingredients table"
      and rest: "set (ingredients rest) \<subseteq> table_ingredients table"
      by (simp_all add: ingredients_Cons)
    from "4.prems"(2) [OF here "4.prems"(5)]
    have a: "G (js_mul ingredientAmountPerCraft numCraftsForThisRecipe)" by simp
    from ingredient "4.prems"(6) consider "c \<in> set first" | "c \<in> set others" by auto
    then show ?thesis
    proof cases
      case 1
      from "4.IH"(2) [OF ingredient(1) "4.prems"(1,2) ingredient(2) a 1] show ?thesis by simp
    next
      case 2
      from "4.IH"(3) [OF ingredient(1,2) "4.prems"(1,2) ingredient(3) rest "4.prems"(5) 2] show ?thesis
        by simp
    qed
  qed
qed


lemma outputs_positiveD:
  assumes "outputs_positive table" and "map_of table name = Some recipe"
  shows "\<exists>out. map_of recipe ''output'' = Some out \<and> 0 < out"
proof -
  from assms(2) have "(name, recipe) \<in> set table" by (rule map_of_SomeD)
  with assms(1) show ?thesis
    by (auto simp: outputs_positive_def list_all_iff split: option.splits)
qed

lemma quantities_nonnegD:
  assumes "quantities_nonneg table" and "p \<in> table_ingredients table"
  shows "0 \<le> snd p"
  using assms by (auto simp: quantities_nonneg_def table_ingredients_def list_all_iff)







lemma js_add_zero_fin [simp]: "js_add (Fin 0) (fin q) = fin q"
  by (simp add: fin_def)

subsection \<open>The tables of the examples\<close>

lemma safe_minus_one [simp]: "safe (- 1)"
  by (simp add: safe_def)

lemma example_recipes_acyclic: "acyclic (ingredient_rel example_recipes)"
proof (rule ranked_acyclic)
  fix k n
  assume "(k, n) \<in> ingredient_rel example_recipes"
  then show "(if k = ''transferBoxes'' then 3 else if k = ''nails'' then 2
        else if k = ''ironBar'' \<or> k = ''copperBar'' then 1 else 0)
      < (if n = ''transferBoxes'' then 3 else if n = ''nails'' then 2
        else if n = ''ironBar'' \<or> n = ''copperBar'' then 1 else (0::nat))"
    by (auto simp: ingredient_rel_def example_recipes_def ingredients_def split: if_splits)
qed

lemma example_recipes_valid:
  "outputs_positive example_recipes" "quantities_nonneg example_recipes"
  "outputs_nonzero example_recipes" "safe_numbers example_recipes"
  by (simp_all add: outputs_positive_def quantities_nonneg_def outputs_nonzero_def
      safe_numbers_def example_recipes_def ingredients_def)


lemma negative_quantity_recipes_acyclic: "acyclic (ingredient_rel negative_quantity_recipes)"
proof (rule ranked_acyclic)
  fix k n
  assume "(k, n) \<in> ingredient_rel negative_quantity_recipes"
  then show "(if k = ''a'' then 1 else 0) < (if n = ''a'' then 1 else (0::nat))"
    by (auto simp: ingredient_rel_def negative_quantity_recipes_def ingredients_def
        split: if_splits)
qed

subsection \<open>Resolutions of the quantity 0\<close>




lemma foldl_Some_not_None:
  "cs \<noteq> [] \<Longrightarrow> foldl (\<lambda>entry c. Some (f entry c)) x cs \<noteq> None"
  by (induction cs arbitrary: x rule: rev_induct) simp_all


subsection \<open>Sums of exact amounts\<close>

lemma demanded_simps [simp]:
  "demanded name [] = 0"
  "demanded name (c # cs) =
     (if fst c = name then (case integer_of (snd c) of Some n \<Rightarrow> n | None \<Rightarrow> 0) else 0)
       + demanded name cs"
  "demanded name (cs @ ds) = demanded name cs + demanded name ds"
  by (simp_all add: demanded_def)

text \<open>A total that is an exact integer is the sum of exact integers.\<close>

lemma foldl_js_add:
  assumes "\<forall>n\<in>set ns. integer_or_unknown n"
  shows "case foldl (\<lambda>entry n. Some (js_add (or_zero entry) n)) None ns of
       None \<Rightarrow> ns = []
     | Some w \<Rightarrow> integer_or_unknown w
         \<and> (\<forall>v. w = Fin v \<longrightarrow> (\<forall>n\<in>set ns. \<exists>a. n = Fin a)
               \<and> v = (\<Sum>n\<leftarrow>ns. case integer_of n of Some a \<Rightarrow> a | None \<Rightarrow> 0))"
  using assms
proof (induction ns rule: rev_induct)
  case Nil
  show ?case by simp
next
  case (snoc n ns)
  from snoc.prems have n: "integer_or_unknown n" by simp
  from snoc have IH: "case foldl (\<lambda>entry n. Some (js_add (or_zero entry) n)) None ns of
       None \<Rightarrow> ns = []
     | Some w \<Rightarrow> integer_or_unknown w
         \<and> (\<forall>v. w = Fin v \<longrightarrow> (\<forall>n\<in>set ns. \<exists>a. n = Fin a)
               \<and> v = (\<Sum>n\<leftarrow>ns. case integer_of n of Some a \<Rightarrow> a | None \<Rightarrow> 0))"
    by simp
  show ?case
  proof (cases "foldl (\<lambda>entry n. Some (js_add (or_zero entry) n)) None ns")
    case None
    with IH have "ns = []" by simp
    with n show ?thesis
      by (cases n) (simp_all add: fin_def)
  next
    case (Some w)
    with IH have w: "integer_or_unknown w"
      and sum: "\<forall>v. w = Fin v \<longrightarrow> (\<forall>n\<in>set ns. \<exists>a. n = Fin a)
               \<and> v = (\<Sum>n\<leftarrow>ns. case integer_of n of Some a \<Rightarrow> a | None \<Rightarrow> 0)"
      by simp_all
    show ?thesis
    proof (cases w)
      case (Fin s)
      with sum have s: "\<forall>n\<in>set ns. \<exists>a. n = Fin a"
        "s = (\<Sum>n\<leftarrow>ns. case integer_of n of Some a \<Rightarrow> a | None \<Rightarrow> 0)"
        by simp_all
      with n Some Fin show ?thesis
        by (cases n) (simp_all add: fin_def)
    next
      case Unknown
      with Some show ?thesis by simp
    qed (use w in simp_all)
  qed
qed

lemma foldl_accumulate_plain:
  assumes "r \<notin> set Object_prototype"
  shows "foldl (\<lambda>entry n. Some (accumulate r entry n)) None ns =
     map_option Number (foldl (\<lambda>entry n. Some (js_add (or_zero entry) n)) None ns)"
proof (induction ns rule: rev_induct)
  case Nil
  show ?case by simp
next
  case (snoc n ns)
  with assms show ?case
    by (cases "foldl (\<lambda>entry n. Some (js_add (or_zero entry) n)) None ns") simp_all
qed

lemma foldl_accumulate_member:
  assumes "r \<in> set Object_prototype"
  shows "foldl (\<lambda>entry n. Some (accumulate r entry n)) None ns \<noteq> Some (Number w)"
proof (induction ns arbitrary: w rule: rev_induct)
  case Nil
  show ?case by simp
next
  case (snoc n ns)
  show ?case
  proof (cases "foldl (\<lambda>entry n. Some (accumulate r entry n)) None ns")
    case None
    with assms show ?thesis by simp
  next
    case (Some v)
    show ?thesis
    proof (cases v)
      case (Number x)
      with Some snoc.IH [of x] show ?thesis by simp
    next
      case (Text member appended)
      with Some show ?thesis by simp
    qed
  qed
qed

lemma craftsNeeded_foldl_proto:
  "craftsNeeded (foldl record_demand e tr) ''__proto__'' = craftsNeeded e ''__proto__''"
proof (induction tr arbitrary: e)
  case Nil
  show ?case by simp
next
  case (Cons c tr)
  have "craftsNeeded (record_demand e c) ''__proto__'' = craftsNeeded e ''__proto__''"
    by (simp add: record_demand_def assign_def split: option.splits)
  with Cons.IH [of "record_demand e c"] show ?case by simp
qed

text \<open>An entry of the crafts that is a number belongs to a recipe of the table whose name
  is not the name of a member of \<^verbatim>\<open>Object.prototype\<close>, and is the total of the batch
  counts of the calls for it.\<close>

lemma crafts_number:
  assumes "craftsNeeded (foldl record_demand (initial_env table) calls) r = Some (Number w)"
  shows "\<exists>recipe. map_of table r = Some recipe \<and> r \<notin> set Object_prototype
    \<and> Some w = foldl (\<lambda>entry n. Some (js_add (or_zero entry) n)) None
        (map (\<lambda>c. Math_ceil_quotient (snd c) (map_of recipe ''output'')) (calls_for r calls))"
proof (cases "lookup table r")
  case None
  then have "lookup (recipes (initial_env table)) r = None" by (simp add: initial_env_def)
  from craftsNeeded_foldl_raw [OF this, of calls] assms show ?thesis
    by (simp add: initial_env_def)
next
  case (Some f)
  then have l: "lookup (recipes (initial_env table)) r = Some f" by (simp add: initial_env_def)
  have proto: "r \<noteq> ''__proto__''"
  proof
    assume "r = ''__proto__''"
    with craftsNeeded_foldl_proto [of "initial_env table" calls] assms show False
      by (simp add: initial_env_def)
  qed
  from craftsNeeded_foldl [OF l proto, of calls] assms
  have fold: "Some (Number w) =
      foldl (\<lambda>entry n. Some (accumulate r entry n)) None
        (map (\<lambda>c. Math_ceil_quotient (snd c) (output_of f)) (calls_for r calls))"
    by (simp add: initial_env_def foldl_map)
  show ?thesis
  proof (cases "r \<in> set Object_prototype")
    case True
    from foldl_accumulate_member [OF True] fold show ?thesis by metis
  next
    case False
    with Some obtain recipe where recipe: "map_of table r = Some recipe" "f = Own recipe"
      by (auto simp: lookup_def split: option.splits)
    from fold foldl_accumulate_plain [OF False] recipe(2)
    have "Some w = foldl (\<lambda>entry n. Some (js_add (or_zero entry) n)) None
        (map (\<lambda>c. Math_ceil_quotient (snd c) (map_of recipe ''output'')) (calls_for r calls))"
      by (auto simp: map_option_case split: option.splits)
    with recipe(1) False show ?thesis by blast
  qed
qed

lemma materials_number:
  assumes "materialsNeeded (foldl record_demand (initial_env table) calls) m = Some w"
  shows "lookup table m = None"
    and "Some w = foldl (\<lambda>entry n. Some (js_add (or_zero entry) n)) None
        (map snd (calls_for m calls))"
proof -
  show none: "lookup table m = None"
  proof (cases "lookup table m")
    case (Some f)
    then have "lookup (recipes (initial_env table)) m = Some f" by (simp add: initial_env_def)
    from materialsNeeded_foldl_found [OF this, of calls] assms show ?thesis
      by (simp add: initial_env_def)
  qed
  then have "lookup (recipes (initial_env table)) m = None" by (simp add: initial_env_def)
  from materialsNeeded_foldl [OF this, of calls] assms
  show "Some w = foldl (\<lambda>entry n. Some (js_add (or_zero entry) n)) None
        (map snd (calls_for m calls))"
    by (simp add: initial_env_def foldl_map)
qed

lemma Math_ceil_quotient_FinD:
  assumes "Math_ceil_quotient a (Some out) = Fin n" and "out \<noteq> 0"
  shows "\<exists>a'. a = Fin a' \<and> safe a' \<and> safe out \<and> n = \<lceil>(of_int a' :: rat) / of_int out\<rceil>"
  using assms by (cases a) (auto split: if_splits)

lemma js_mul_FinD:
  assumes "js_mul p n = Fin a"
  shows "\<exists>nn. n = Fin nn \<and> a = p * nn"
  using assms by (cases n) (auto simp: fin_eq_Fin split: if_splits)

lemma integer_or_unknown_fin [simp]: "integer_or_unknown (fin n)"
  by (simp add: fin_def)

lemma integer_or_unknown_js_mul: "integer_or_unknown n \<Longrightarrow> integer_or_unknown (js_mul p n)"
  by (cases n) simp_all

lemma integer_or_unknown_ceil:
  "integer_or_unknown a \<Longrightarrow> out \<noteq> 0 \<Longrightarrow> integer_or_unknown (Math_ceil_quotient a (Some out))"
  by (cases a) simp_all

lemma integer_amounts:
  assumes "outputs_positive table"
    and "demands depth table name (fin q) = Done tr" and "c \<in> set tr"
  shows "integer_or_unknown (snd c)"
proof (rule demands_amounts(1) [where G = integer_or_unknown and H = integer_or_unknown,
      OF _ _ assms(2) _ assms(3)])
  show "integer_or_unknown (Math_ceil_quotient a (map_of recipe ''output''))"
    if "map_of table name = Some recipe" and "integer_or_unknown a" for name recipe a
  proof -
    from outputs_positiveD [OF assms(1) that(1)] obtain out
      where "map_of recipe ''output'' = Some out" "0 < out"
      by blast
    with that(2) show ?thesis by (simp add: integer_or_unknown_ceil del: Math_ceil_quotient.simps)
  qed
  show "integer_or_unknown (js_mul (snd p) n)" if "integer_or_unknown n" for p n
    using that by (rule integer_or_unknown_js_mul)
  show "integer_or_unknown (fin q)" by simp
qed

subsection \<open>The requirement without rounding\<close>

lemma unrounded_le_demanded:
  "demands depth table name amount = Done tr \<Longrightarrow> outputs_positive table \<Longrightarrow>
     quantities_nonneg table \<Longrightarrow> lookup table raw = None \<Longrightarrow>
     \<forall>c\<in>set (calls_for raw tr). \<exists>a. snd c = Fin a \<Longrightarrow>
     \<forall>a. amount = Fin a \<longrightarrow> q \<le> of_int a \<Longrightarrow>
     unrounded depth table name q raw \<le> of_int (demanded raw tr)"
  "demandsFor depth table recipe n = Done tr \<Longrightarrow> outputs_positive table \<Longrightarrow>
     quantities_nonneg table \<Longrightarrow> lookup table raw = None \<Longrightarrow>
     \<forall>c\<in>set (calls_for raw tr). \<exists>a. snd c = Fin a \<Longrightarrow>
     \<forall>p \<in> set (ingredients recipe). 0 \<le> snd p \<Longrightarrow> \<forall>nn. n = Fin nn \<longrightarrow> x \<le> of_int nn \<Longrightarrow>
     (\<Sum>p\<leftarrow>ingredients recipe. unrounded depth table (fst p) (of_int (snd p) * x) raw)
       \<le> of_int (demanded raw tr)"
proof (induction depth table name amount and depth table recipe n arbitrary: tr q and tr x
    rule: demands_demandsFor.induct)
  case (1 table currentItemName requiredAmount)
  then show ?case by simp
next
  case (2 depth table currentItemName requiredAmount)
  from "2.prems"(1) show ?case
  proof (cases rule: demands_SucE)
    case raw
    then have none: "map_of table currentItemName = None"
      by (simp add: lookup_def split: option.splits if_splits)
    show ?thesis
    proof (cases "currentItemName = raw")
      case True
      with raw(2) "2.prems"(5) obtain a where "requiredAmount = Fin a" by auto
      with "2.prems"(6) True raw(2) none show ?thesis by simp
    next
      case False
      with raw(2) none show ?thesis by simp
    qed
  next
    case (found recipe below)
    from found(1) "2.prems"(4) have other: "currentItemName \<noteq> raw" by auto
    with found(3) have same: "demanded raw tr = demanded raw below"
      and calls: "\<forall>c\<in>set (calls_for raw below). \<exists>a. snd c = Fin a"
      using "2.prems"(5) by simp_all
    show ?thesis
    proof (cases recipe)
      case Inherited
      with found(1) have "map_of table currentItemName = None"
        by (simp add: lookup_def split: option.splits if_splits)
      moreover from Inherited found(2) have "below = []" by simp
      ultimately show ?thesis using other same by simp
    next
      case (Own r)
      with found(1) have r: "map_of table currentItemName = Some r"
        by (auto simp: lookup_def split: option.splits if_splits)
      from outputs_positiveD [OF "2.prems"(2) r] obtain out
        where out: "map_of r ''output'' = Some out" "0 < out"
        by blast
      have x: "\<forall>nn. Math_ceil_quotient requiredAmount (output_of recipe) = Fin nn \<longrightarrow>
          q / of_int out \<le> of_int nn"
      proof (intro allI impI)
        fix nn
        assume "Math_ceil_quotient requiredAmount (output_of recipe) = Fin nn"
        with Own out have "Math_ceil_quotient requiredAmount (Some out) = Fin nn" by simp
        from Math_ceil_quotient_FinD [OF this] out(2) obtain a
          where a: "requiredAmount = Fin a" "nn = \<lceil>(of_int a :: rat) / of_int out\<rceil>"
          by auto
        from a(1) "2.prems"(6) have "q \<le> of_int a" by simp
        with out(2) have "q / of_int out \<le> of_int a / of_int out"
          by (intro divide_right_mono) simp_all
        also have "\<dots> \<le> of_int \<lceil>(of_int a :: rat) / of_int out\<rceil>"
          by (rule le_of_int_ceiling)
        finally show "q / of_int out \<le> of_int nn" using a(2) by simp
      qed
      from r have "(currentItemName, r) \<in> set table" by (rule map_of_SomeD)
      then have "set (ingredients r) \<subseteq> table_ingredients table"
        by (force simp: table_ingredients_def)
      with quantities_nonnegD [OF "2.prems"(3)] Own
      have nonneg: "\<forall>p \<in> set (ingredients (properties recipe)). 0 \<le> snd p"
        by auto
      from "2.IH" [OF found(1,2) "2.prems"(2,3,4) calls nonneg x] same Own r out(1)
      show ?thesis by simp
    qed
  qed
next
  case (3 depth table numCraftsForThisRecipe)
  then show ?case by (simp add: ingredients_def)
next
  case (4 depth table ingredientName ingredientAmountPerCraft rest numCraftsForThisRecipe)
  from "4.prems"(1) show ?case
  proof (cases rule: demandsFor_ConsE)
    case skipped
    with "4.prems"(6) have "\<forall>p \<in> set (ingredients rest). 0 \<le> snd p"
      by (simp add: ingredients_Cons)
    from "4.IH"(1) [OF skipped "4.prems"(2,3,4,5) this "4.prems"(7)] skipped(1)
    show ?thesis by (simp add: ingredients_Cons)
  next
    case (ingredient first others)
    with "4.prems"(6) have v: "0 \<le> ingredientAmountPerCraft"
      and r: "\<forall>p \<in> set (ingredients rest). 0 \<le> snd p"
      by (simp_all add: ingredients_Cons)
    from ingredient(4) "4.prems"(5)
    have c1: "\<forall>c\<in>set (calls_for raw first). \<exists>a. snd c = Fin a"
      and c2: "\<forall>c\<in>set (calls_for raw others). \<exists>a. snd c = Fin a"
      by auto
    have a: "\<forall>a. js_mul ingredientAmountPerCraft numCraftsForThisRecipe = Fin a \<longrightarrow>
        of_int ingredientAmountPerCraft * x \<le> of_int a"
    proof (intro allI impI)
      fix a
      assume "js_mul ingredientAmountPerCraft numCraftsForThisRecipe = Fin a"
      from js_mul_FinD [OF this] obtain nn
        where nn: "numCraftsForThisRecipe = Fin nn" "a = ingredientAmountPerCraft * nn"
        by blast
      from nn(1) "4.prems"(7) have "x \<le> of_int nn" by simp
      moreover from v have "(0::rat) \<le> of_int ingredientAmountPerCraft" by simp
      ultimately have "of_int ingredientAmountPerCraft * x
          \<le> of_int ingredientAmountPerCraft * of_int nn"
        by (rule mult_left_mono)
      with nn(2) show "of_int ingredientAmountPerCraft * x \<le> of_int a" by simp
    qed
    from "4.IH"(2) [OF ingredient(1,2) "4.prems"(2,3,4) c1 a]
      "4.IH"(3) [OF ingredient(1,2,3) "4.prems"(2,3,4) c2 r "4.prems"(7)] ingredient(1,4)
    show ?thesis by (simp add: ingredients_Cons)
  qed
qed

lemma demanded_le_output_times_batches:
  assumes "0 < out"
    and "\<forall>c\<in>set cs. \<exists>n. Math_ceil_quotient (snd c) (Some out) = Fin n"
  shows "(\<forall>c\<in>set cs. \<exists>a. snd c = Fin a)
    \<and> (\<Sum>c\<leftarrow>cs. case integer_of (snd c) of Some n \<Rightarrow> n | None \<Rightarrow> 0)
      \<le> out * (\<Sum>c\<leftarrow>cs. case integer_of (Math_ceil_quotient (snd c) (Some out)) of
                            Some n \<Rightarrow> n | None \<Rightarrow> 0)"
proof -
  have each: "\<exists>a. snd c = Fin a \<and> integer_of (snd c) = Some a
      \<and> integer_of (Math_ceil_quotient (snd c) (Some out))
          = Some \<lceil>(of_int a :: rat) / of_int out\<rceil>"
    if "c \<in> set cs" for c
  proof -
    from assms(2) that obtain n where n: "Math_ceil_quotient (snd c) (Some out) = Fin n"
      by blast
    from Math_ceil_quotient_FinD [OF this] assms(1) obtain a
      where "snd c = Fin a" "n = \<lceil>(of_int a :: rat) / of_int out\<rceil>"
      by auto
    with n show ?thesis by simp
  qed
  have "(\<Sum>c\<leftarrow>cs. case integer_of (snd c) of Some n \<Rightarrow> n | None \<Rightarrow> 0)
      \<le> (\<Sum>c\<leftarrow>cs. out * (case integer_of (Math_ceil_quotient (snd c) (Some out)) of
                            Some n \<Rightarrow> n | None \<Rightarrow> 0))"
  proof (rule sum_list_mono)
    fix c
    assume "c \<in> set cs"
    from each [OF this] obtain a where a: "snd c = Fin a" "integer_of (snd c) = Some a"
      "integer_of (Math_ceil_quotient (snd c) (Some out))
          = Some \<lceil>(of_int a :: rat) / of_int out\<rceil>"
      by blast
    from ceiling_quotient_covers [OF assms(1), of a] a(2,3)
    show "(case integer_of (snd c) of Some n \<Rightarrow> n | None \<Rightarrow> 0)
      \<le> out * (case integer_of (Math_ceil_quotient (snd c) (Some out)) of
                            Some n \<Rightarrow> n | None \<Rightarrow> 0)"
      by simp
  qed
  moreover from each have "\<forall>c\<in>set cs. \<exists>a. snd c = Fin a" by blast
  ultimately show ?thesis by (simp add: sum_list_const_mult)
qed

section \<open>The claims\<close>







text \<open>
  C3: on the recipe table of the example, 10 \<^verbatim>\<open>ironBar\<close> need 50 \<^verbatim>\<open>ironOre\<close> and 50
  \<^verbatim>\<open>coal\<close> in 2 crafts of \<^verbatim>\<open>ironBar\<close>; 25 \<^verbatim>\<open>nails\<close> need 25 \<^verbatim>\<open>ironOre\<close> and 30
  \<^verbatim>\<open>coal\<close>, in 5 crafts of \<^verbatim>\<open>nails\<close> and 1 of \<^verbatim>\<open>ironBar\<close>; 5 \<^verbatim>\<open>transferBoxes\<close> need
  15 \<^verbatim>\<open>copperOre\<close>, 36 \<^verbatim>\<open>coal\<close>, 25 \<^verbatim>\<open>ironOre\<close> and 10 \<^verbatim>\<open>softwood\<close>, in 5 crafts of
  \<^verbatim>\<open>transferBoxes\<close>, 3 of \<^verbatim>\<open>copperBar\<close>, 5 of \<^verbatim>\<open>nails\<close> and 1 of \<^verbatim>\<open>ironBar\<close>. The
  three runs need 2, 3 and 4 stack frames, and any deeper stack gives the same result.
\<close>

theorem example_resolutions:
  "calculateMaterials (2 + depth) example_recipes ''ironBar'' 10 =
     Done \<lparr>materials = [''ironOre'' \<mapsto> Fin 50, ''coal'' \<mapsto> Fin 50],
           crafts = [''ironBar'' \<mapsto> Number (Fin 2)]\<rparr>
   \<and> calculateMaterials (3 + depth) example_recipes ''nails'' 25 =
     Done \<lparr>materials = [''ironOre'' \<mapsto> Fin 25, ''coal'' \<mapsto> Fin 30],
           crafts = [''nails'' \<mapsto> Number (Fin 5), ''ironBar'' \<mapsto> Number (Fin 1)]\<rparr>
   \<and> calculateMaterials (4 + depth) example_recipes ''transferBoxes'' 5 =
     Done \<lparr>materials = [''copperOre'' \<mapsto> Fin 15, ''coal'' \<mapsto> Fin 36, ''ironOre'' \<mapsto> Fin 25,
                        ''softwood'' \<mapsto> Fin 10],
           crafts = [''transferBoxes'' \<mapsto> Number (Fin 5), ''copperBar'' \<mapsto> Number (Fin 3),
                     ''nails'' \<mapsto> Number (Fin 5), ''ironBar'' \<mapsto> Number (Fin 1)]\<rparr>"
proof (intro conjI)
  show "calculateMaterials (2 + depth) example_recipes ''ironBar'' 10 =
     Done \<lparr>materials = [''ironOre'' \<mapsto> Fin 50, ''coal'' \<mapsto> Fin 50],
           crafts = [''ironBar'' \<mapsto> Number (Fin 2)]\<rparr>"
    by (rule calculateMaterials_add_depth)
       (simp add: run_simps del: Math_ceil_quotient.simps(4))
  show "calculateMaterials (3 + depth) example_recipes ''nails'' 25 =
     Done \<lparr>materials = [''ironOre'' \<mapsto> Fin 25, ''coal'' \<mapsto> Fin 30],
           crafts = [''nails'' \<mapsto> Number (Fin 5), ''ironBar'' \<mapsto> Number (Fin 1)]\<rparr>"
    by (rule calculateMaterials_add_depth)
       (simp add: run_simps del: Math_ceil_quotient.simps(4))
  have "[''copperOre'' \<mapsto> Fin 15, ''ironOre'' \<mapsto> Fin 25, ''coal'' \<mapsto> Fin 36,
        ''softwood'' \<mapsto> Fin 10] =
      [''copperOre'' \<mapsto> Fin 15, ''coal'' \<mapsto> Fin 36, ''ironOre'' \<mapsto> Fin 25,
       ''softwood'' \<mapsto> Fin 10]"
    by (rule ext) simp
  then show "calculateMaterials (4 + depth) example_recipes ''transferBoxes'' 5 =
     Done \<lparr>materials = [''copperOre'' \<mapsto> Fin 15, ''coal'' \<mapsto> Fin 36, ''ironOre'' \<mapsto> Fin 25,
                        ''softwood'' \<mapsto> Fin 10],
           crafts = [''transferBoxes'' \<mapsto> Number (Fin 5), ''copperBar'' \<mapsto> Number (Fin 3),
                     ''nails'' \<mapsto> Number (Fin 5), ''ironBar'' \<mapsto> Number (Fin 1)]\<rparr>"
    by (intro calculateMaterials_add_depth)
       (simp add: run_simps del: Math_ceil_quotient.simps(4))
qed









text \<open>
  C7, as the code has it: on an acyclic recipe table whose outputs are positive and whose
  quantities per batch are not negative, a result that the resolver has computed exactly,
  on integers up to \<open>2^53\<close>, is never too small. An entry of the crafts that is such a
  number belongs to a recipe of the table, the calls for it have asked for exact
  quantities, and its batches produce at least their total. An entry of the materials that
  is such a number is at least the requirement without rounding; and an item for which
  \<^verbatim>\<open>recipes[name]\<close> finds nothing and that has no entry is not required.
\<close>

theorem never_under_estimate:
  assumes "acyclic (ingredient_rel table)" and "outputs_positive table"
    and "quantities_nonneg table"
  shows "\<exists>res calls. (\<exists>d. chains_within table d targetItem)
    \<and> (\<forall>depth. chains_within table depth targetItem \<longrightarrow>
          calculateMaterials depth table targetItem desiredQuantity = Done res
          \<and> demands depth table targetItem (fin desiredQuantity) = Done calls
          \<and> (\<forall>m v. materials res m = Some (Fin v) \<longrightarrow>
                unrounded depth table targetItem (of_int desiredQuantity) m \<le> of_int v)
          \<and> (\<forall>m. lookup table m = None \<longrightarrow> materials res m = None \<longrightarrow>
                unrounded depth table targetItem (of_int desiredQuantity) m \<le> 0))
    \<and> (\<forall>r v. crafts res r = Some (Number (Fin v)) \<longrightarrow>
          (\<exists>recipe out. map_of table r = Some recipe \<and> map_of recipe ''output'' = Some out
             \<and> (\<forall>c\<in>set (calls_for r calls). \<exists>a. snd c = Fin a)
             \<and> demanded r calls \<le> out * v))"
proof -
  from resolves [OF assms(1), of targetItem desiredQuantity]
  obtain res calls where d: "\<exists>d. chains_within table d targetItem"
    and run: "\<forall>depth. chains_within table depth targetItem \<longrightarrow>
      calculateMaterials depth table targetItem desiredQuantity = Done res
      \<and> demands depth table targetItem (fin desiredQuantity) = Done calls"
    by blast
  from d run obtain d0
    where res0: "calculateMaterials d0 table targetItem desiredQuantity = Done res"
      and calls0: "demands d0 table targetItem (fin desiredQuantity) = Done calls"
    by blast
  from res0 calls0
  have ms: "materials res = materialsNeeded (foldl record_demand (initial_env table) calls)"
    and cs: "crafts res = craftsNeeded (foldl record_demand (initial_env table) calls)"
    by (auto elim: calculateMaterials_DoneD)
  note integer = integer_amounts [OF assms(2) calls0]
  have q: "\<forall>a. fin desiredQuantity = Fin a \<longrightarrow> (of_int desiredQuantity :: rat) \<le> of_int a"
    by (simp add: fin_eq_Fin)
  have raw: "unrounded depth table targetItem (of_int desiredQuantity) m \<le> of_int v"
    if depth: "chains_within table depth targetItem" and m: "materials res m = Some (Fin v)"
    for depth m v
  proof -
    from run depth
    have calls: "demands depth table targetItem (fin desiredQuantity) = Done calls"
      by blast
    from m ms
    have m': "materialsNeeded (foldl record_demand (initial_env table) calls) m = Some (Fin v)"
      by simp
    note none = materials_number(1) [OF m']
      and fold = materials_number(2) [OF m', symmetric]
    have "\<forall>n\<in>set (map snd (calls_for m calls)). integer_or_unknown n"
    proof
      fix n
      assume "n \<in> set (map snd (calls_for m calls))"
      then obtain c where "c \<in> set (calls_for m calls)" and n: "n = snd c" by auto
      with set_calls_for [of m calls] have "c \<in> set calls" by blast
      from integer [OF this] n show "integer_or_unknown n" by simp
    qed
    from foldl_js_add [OF this]
    have "(\<forall>n\<in>set (map snd (calls_for m calls)). \<exists>a. n = Fin a)
        \<and> v = (\<Sum>n\<leftarrow>map snd (calls_for m calls).
                 case integer_of n of Some a \<Rightarrow> a | None \<Rightarrow> 0)"
      unfolding fold by simp
    then have exact: "\<forall>c\<in>set (calls_for m calls). \<exists>a. snd c = Fin a"
      and v: "v = demanded m calls"
      by (simp_all add: demanded_def o_def)
    from unrounded_le_demanded(1) [OF calls assms(2,3) none exact q] v
    show ?thesis by simp
  qed
  have absent: "unrounded depth table targetItem (of_int desiredQuantity) m \<le> 0"
    if depth: "chains_within table depth targetItem" and none: "lookup table m = None"
      and m: "materials res m = None"
    for depth m
  proof -
    from run depth
    have calls: "demands depth table targetItem (fin desiredQuantity) = Done calls"
      by blast
    from none have "lookup (recipes (initial_env table)) m = None"
      by (simp add: initial_env_def)
    from materialsNeeded_foldl [OF this, of calls] m ms
    have "foldl (\<lambda>entry c. Some (js_add (or_zero entry) (snd c))) None (calls_for m calls) = None"
      by (simp add: initial_env_def)
    with foldl_Some_not_None [of "calls_for m calls"
        "\<lambda>entry c. js_add (or_zero entry) (snd c)" None]
    have empty: "calls_for m calls = []"
      by (cases "calls_for m calls = []") simp_all
    then have "demanded m calls = 0" by (simp add: demanded_def)
    moreover from empty have "\<forall>c\<in>set (calls_for m calls). \<exists>a. snd c = Fin a" by simp
    from unrounded_le_demanded(1) [OF calls assms(2,3) none this q]
    have "unrounded depth table targetItem (of_int desiredQuantity) m
        \<le> of_int (demanded m calls)" .
    ultimately show ?thesis by simp
  qed
  have craftable: "\<exists>recipe out. map_of table r = Some recipe \<and> map_of recipe ''output'' = Some out
      \<and> (\<forall>c\<in>set (calls_for r calls). \<exists>a. snd c = Fin a)
      \<and> demanded r calls \<le> out * v"
    if r: "crafts res r = Some (Number (Fin v))" for r v
  proof -
    from r cs
    have "craftsNeeded (foldl record_demand (initial_env table) calls) r = Some (Number (Fin v))"
      by simp
    from crafts_number [OF this]
    obtain recipe where recipe: "map_of table r = Some recipe"
      and fold': "Some (Fin v) = foldl (\<lambda>entry n. Some (js_add (or_zero entry) n)) None
        (map (\<lambda>c. Math_ceil_quotient (snd c) (map_of recipe ''output'')) (calls_for r calls))"
      by blast
    from outputs_positiveD [OF assms(2) recipe] obtain out
      where out: "map_of recipe ''output'' = Some out" "0 < out"
      by blast
    have ints: "\<forall>n\<in>set (map (\<lambda>c. Math_ceil_quotient (snd c) (Some out)) (calls_for r calls)).
        integer_or_unknown n"
    proof
      fix n
      assume "n \<in> set (map (\<lambda>c. Math_ceil_quotient (snd c) (Some out)) (calls_for r calls))"
      then obtain c where c: "c \<in> set (calls_for r calls)"
        and n: "n = Math_ceil_quotient (snd c) (Some out)"
        by auto
      from c set_calls_for [of r calls] have "c \<in> set calls" by blast
      from integer [OF this] out(2) n show "integer_or_unknown n"
        by (simp add: integer_or_unknown_ceil del: Math_ceil_quotient.simps)
    qed
    from fold' out(1)
    have fold: "foldl (\<lambda>entry n. Some (js_add (or_zero entry) n)) None
        (map (\<lambda>c. Math_ceil_quotient (snd c) (Some out)) (calls_for r calls)) = Some (Fin v)"
      by (simp only:)
    from foldl_js_add [OF ints]
    have "(\<forall>n\<in>set (map (\<lambda>c. Math_ceil_quotient (snd c) (Some out)) (calls_for r calls)).
            \<exists>a. n = Fin a)
        \<and> v = (\<Sum>n\<leftarrow>map (\<lambda>c. Math_ceil_quotient (snd c) (Some out)) (calls_for r calls).
                 case integer_of n of Some a \<Rightarrow> a | None \<Rightarrow> 0)"
      unfolding fold by (simp del: Math_ceil_quotient.simps)
    then
    have batches: "\<forall>c\<in>set (calls_for r calls). \<exists>n. Math_ceil_quotient (snd c) (Some out) = Fin n"
      and v: "v = (\<Sum>c\<leftarrow>calls_for r calls.
          case integer_of (Math_ceil_quotient (snd c) (Some out)) of
            Some n \<Rightarrow> n | None \<Rightarrow> 0)"
      by (simp_all add: o_def del: Math_ceil_quotient.simps)
    from demanded_le_output_times_batches [OF out(2) batches] v
    have "(\<forall>c\<in>set (calls_for r calls). \<exists>a. snd c = Fin a) \<and> demanded r calls \<le> out * v"
      by (simp add: demanded_def del: Math_ceil_quotient.simps)
    with recipe out(1) show ?thesis by blast
  qed
  from d run raw absent craftable show ?thesis by blast
qed

text \<open>On the table of the example, 5 \<^verbatim>\<open>transferBoxes\<close> need \<open>625 / 36\<close> units of
  \<^verbatim>\<open>ironOre\<close> without rounding, and the resolver asks for 25.\<close>

theorem never_under_estimate_witness:
  "acyclic (ingredient_rel example_recipes) \<and> outputs_positive example_recipes
   \<and> quantities_nonneg example_recipes
   \<and> chains_within example_recipes 4 ''transferBoxes''
   \<and> unrounded 4 example_recipes ''transferBoxes'' (of_int 5) ''ironOre'' = 625 / 36
   \<and> (\<exists>res calls. (\<exists>d. chains_within example_recipes d ''transferBoxes'')
    \<and> (\<forall>depth. chains_within example_recipes depth ''transferBoxes'' \<longrightarrow>
          calculateMaterials depth example_recipes ''transferBoxes'' 5 = Done res
          \<and> demands depth example_recipes ''transferBoxes'' (fin 5) = Done calls
          \<and> (\<forall>m v. materials res m = Some (Fin v) \<longrightarrow>
                unrounded depth example_recipes ''transferBoxes'' (of_int 5) m \<le> of_int v)
          \<and> (\<forall>m. lookup example_recipes m = None \<longrightarrow> materials res m = None \<longrightarrow>
                unrounded depth example_recipes ''transferBoxes'' (of_int 5) m \<le> 0))
    \<and> (\<forall>r v. crafts res r = Some (Number (Fin v)) \<longrightarrow>
          (\<exists>recipe out. map_of example_recipes r = Some recipe
             \<and> map_of recipe ''output'' = Some out
             \<and> (\<forall>c\<in>set (calls_for r calls). \<exists>a. snd c = Fin a)
             \<and> demanded r calls \<le> out * v)))"
proof -
  have "chains_within example_recipes 4 ''transferBoxes''"
    by (simp add: example_recipes_def ingredients_def eval_nat_numeral)
  moreover
  have "unrounded 4 example_recipes ''transferBoxes'' (of_int 5) ''ironOre'' = 625 / 36"
    by (simp add: example_recipes_def ingredients_def eval_nat_numeral)
  moreover note never_under_estimate [OF example_recipes_acyclic example_recipes_valid(1,2),
      of "''transferBoxes''" 5]
  ultimately show ?thesis
    using example_recipes_acyclic example_recipes_valid(1,2) by (intro conjI)
qed

text \<open>A recipe with the quantity \<open>- 1\<close> per batch: one \<^verbatim>\<open>a\<close> needs \<open>- 1 / 2\<close> of \<^verbatim>\<open>x\<close>
  without rounding and the total is \<open>- 1\<close>. And with \<^verbatim>\<open>constructor\<close> as an ingredient that
  has no recipe, 3 \<^verbatim>\<open>a\<close> need 6 of it and the materials have no entry for it.\<close>

theorem never_under_estimate_counterexample:
  "acyclic (ingredient_rel negative_quantity_recipes)
   \<and> outputs_positive negative_quantity_recipes \<and> (0::int) \<le> 1
   \<and> calculateMaterials 2 negative_quantity_recipes ''a'' 1 =
       Done \<lparr>materials = [''x'' \<mapsto> Fin (- 1)], crafts = [''a'' \<mapsto> Number (Fin 1)]\<rparr>
   \<and> unrounded 2 negative_quantity_recipes ''a'' (of_int 1) ''x'' = - 1 / 2
   \<and> (of_int (- 1) :: rat) < - 1 / 2
   \<and> outputs_positive constructor_ingredient_recipes
   \<and> calculateMaterials 2 constructor_ingredient_recipes ''a'' 3 =
       Done \<lparr>materials = Map.empty,
             crafts = [''a'' \<mapsto> Number (Fin 3),
                       ''constructor'' \<mapsto> Text ''constructor'' [NaN]]\<rparr>
   \<and> unrounded 2 constructor_ingredient_recipes ''a'' (of_int 3) ''constructor'' = 6"
proof -
  have "outputs_positive negative_quantity_recipes"
    by (simp add: outputs_positive_def negative_quantity_recipes_def)
  moreover have "calculateMaterials 2 negative_quantity_recipes ''a'' 1 =
       Done \<lparr>materials = [''x'' \<mapsto> Fin (- 1)], crafts = [''a'' \<mapsto> Number (Fin 1)]\<rparr>"
    by (simp add: run_simps negative_quantity_recipes_def del: Math_ceil_quotient.simps(4))
  moreover have "unrounded 2 negative_quantity_recipes ''a'' (of_int 1) ''x'' = - 1 / 2"
    by (simp add: negative_quantity_recipes_def ingredients_def eval_nat_numeral)
  moreover have "(of_int (- 1) :: rat) < - 1 / 2" by simp
  moreover have "(0::int) \<le> 1" by simp
  moreover have "outputs_positive constructor_ingredient_recipes"
    by (simp add: outputs_positive_def constructor_ingredient_recipes_def)
  moreover have "calculateMaterials 2 constructor_ingredient_recipes ''a'' 3 =
       Done \<lparr>materials = Map.empty,
             crafts = [''a'' \<mapsto> Number (Fin 3),
                       ''constructor'' \<mapsto> Text ''constructor'' [NaN]]\<rparr>"
    by (simp add: run_simps constructor_ingredient_recipes_def
        del: Math_ceil_quotient.simps(4))
  moreover
  have "unrounded 2 constructor_ingredient_recipes ''a'' (of_int 3) ''constructor'' = 6"
    by (simp add: constructor_ingredient_recipes_def ingredients_def eval_nat_numeral)
  ultimately show ?thesis
    using negative_quantity_recipes_acyclic by (intro conjI)
qed




text \<open>
  C9: the recipe table is not changed by the resolver. A call of \<^verbatim>\<open>processRecipe\<close> that
  returns leaves the variable \<^verbatim>\<open>recipes\<close> of its environment as it found it, so after the
  outermost call the table is the one that was passed in; the other two variables of the
  environment, which start empty, are the two maps that are returned.
\<close>

theorem recipes_never_mutated:
  assumes "final_env depth table targetItem desiredQuantity = Done e"
  shows "recipes e = table
    \<and> materialsNeeded (initial_env table) = Map.empty
    \<and> craftsNeeded (initial_env table) = Map.empty
    \<and> calculateMaterials depth table targetItem desiredQuantity =
         Done \<lparr>materials = materialsNeeded e, crafts = craftsNeeded e\<rparr>"
proof -
  from assms have "recipes e = recipes (initial_env table)"
    unfolding final_env_def by (rule processRecipe_recipes)
  then have "recipes e = table" by (simp add: initial_env_def)
  with assms show ?thesis
    by (simp add: initial_env_def calculateMaterials_def)
qed

theorem recipes_never_mutated_witness:
  "final_env 2 example_recipes ''ironBar'' 10 =
     Done \<lparr>recipes = example_recipes,
           materialsNeeded = [''ironOre'' \<mapsto> Fin 50, ''coal'' \<mapsto> Fin 50],
           craftsNeeded = [''ironBar'' \<mapsto> Number (Fin 2)]\<rparr>
   \<and> recipes \<lparr>recipes = example_recipes,
           materialsNeeded = [''ironOre'' \<mapsto> Fin 50, ''coal'' \<mapsto> Fin 50],
           craftsNeeded = [''ironBar'' \<mapsto> Number (Fin 2)]\<rparr> = example_recipes"
proof -
  have run: "final_env 2 example_recipes ''ironBar'' 10 =
     Done \<lparr>recipes = example_recipes,
           materialsNeeded = [''ironOre'' \<mapsto> Fin 50, ''coal'' \<mapsto> Fin 50],
           craftsNeeded = [''ironBar'' \<mapsto> Number (Fin 2)]\<rparr>"
    by (simp add: run_simps del: Math_ceil_quotient.simps(4))
  from recipes_never_mutated [OF run] run show ?thesis by simp
qed




end
